theory Spec2Isabelle
  imports Main "HOL-Library.Word" "HOL-Library.Log_Nat"
begin

unbundle bit_operations_syntax

section \<open>eFuse fields of the ESP32-C2 (espefuse/efuse/esp32c2/fields.py)\<close>

text \<open>
  A shallow embedding of \<^verbatim>\<open>fields.py\<close>. Python integers are \<^typ>\<open>int\<close>, byte
  strings are lists of \<^typ>\<open>8 word\<close>, bit strings are lists of \<^typ>\<open>bool\<close> (most
  significant bit first), exceptions are values of \<open>error\<close>. Everything the file
  reaches through the serial loader (registers, the crystal frequency, the clock) is an
  event of an explicit trace, answered by an environment.
\<close>

subsection \<open>Exceptions\<close>

datatype error =
    FatalError string
  | StructError
  | ValueError
  | BinasciiError
  | IndexError
  | InterpretError
  | OverflowError


subsection \<open>Python floats\<close>

text \<open>
  A Python float is an IEEE 754 binary64 number. Finite doubles are kept as the rational
  they denote; an operation computes the exact rational result and rounds it to the
  nearest double, ties to even (\<open>to_double\<close>). The exponent of the unit in the last
  place is bounded below by the subnormal range, and a result that rounds to
  \<open>2 ^ 1024\<close> or beyond is an infinity.
\<close>

datatype pyfloat = Float rat | PosInf | NegInf

definition pow2 :: "int \<Rightarrow> rat" where
  "pow2 e = (if 0 \<le> e then 2 ^ nat e else 1 / 2 ^ nat (- e))"

definition ilog2 :: "rat \<Rightarrow> int" where
  \<comment> \<open>for \<open>x \<noteq> 0\<close>: the \<open>e\<close> with \<open>2 ^ e \<le> \<bar>x\<bar> < 2 ^ (e + 1)\<close>\<close>
  "ilog2 x =
     (let (p, q) = quotient_of \<bar>x\<bar>; d = bitlen p - bitlen q
      in if pow2 d \<le> \<bar>x\<bar> then d else d - 1)"

definition round_half_even :: "rat \<Rightarrow> int" where
  "round_half_even q =
     (let f = \<lfloor>q\<rfloor>; r = q - of_int f
      in if r < 1 / 2 then f
         else if 1 / 2 < r then f + 1
         else if even f then f else f + 1)"

definition double_overflow :: rat where
  \<comment> \<open>\<open>2 ^ 1024\<close>, written out\<close>
  "double_overflow =
     179769313486231590772930519078902473361797697894230657273430081157732675805500963132708477322407536021120113879871393357658789768814416622492847430639474124377767893424865485276302219601246094119453082952085005768838150682342462881473913110540827237163350510684586298239947245938479716304835356329624224137216"

definition to_double :: "rat \<Rightarrow> pyfloat" where
  "to_double x =
     (if x = 0 then Float 0
      else
        let e = max (ilog2 x) (- 1022);
            u = pow2 (e - 52);
            y = of_int (round_half_even (\<bar>x\<bar> / u)) * u
        in if double_overflow \<le> y then (if 0 < x then PosInf else NegInf)
           else Float (sgn x * y))"

definition float_add :: "rat \<Rightarrow> rat \<Rightarrow> pyfloat" where
  "float_add a b = to_double (a + b)"

definition float_mul :: "rat \<Rightarrow> rat \<Rightarrow> pyfloat" where
  "float_mul a b = to_double (a * b)"

definition float_of_int :: "int \<Rightarrow> error + rat" where
  \<comment> \<open>the conversion of an \<open>int\<close> operand of a float operation; CPython raises
      OverflowError when the integer is too large for a double\<close>
  "float_of_int n =
     (case to_double (of_int n) of Float r \<Rightarrow> Inr r | _ \<Rightarrow> Inl OverflowError)"

fun float_less :: "rat \<Rightarrow> pyfloat \<Rightarrow> bool" where
  "float_less t (Float d) = (t < d)"
| "float_less t PosInf = True"
| "float_less t NegInf = False"

definition double_0_1 :: rat where
  \<comment> \<open>the double written \<^verbatim>\<open>0.1\<close>\<close>
  "double_0_1 = 3602879701896397 / 36028797018963968"

subsection \<open>The register interface and its trace\<close>

text \<open>
  Modelled from the spec: the RegisterInterface of section 6 (\<^verbatim>\<open>read_reg\<close>,
  \<^verbatim>\<open>write_reg\<close>, \<^verbatim>\<open>update_reg\<close>, \<^verbatim>\<open>get_crystal_freq\<close> of the base class and the
  loader) and \<^verbatim>\<open>time.time\<close> are not in the file. Each call is recorded as an event; what
  a read returns is given by the environment: the \<open>k\<close>-th call of \<^verbatim>\<open>time.time\<close> returns
  \<open>clock k\<close>, the \<open>k\<close>-th call of \<^verbatim>\<open>read_reg\<close> returns \<open>reg_read k addr\<close>, an unsigned
  32-bit value.
\<close>

datatype message =
    ErrorsInBlock nat int bool
  | ErrRegsDump "bool list"
  | RsErrRegDump int
  | FieldChange string string "bool list" "bool list"
  | EmptyLine

datatype event =
    Time rat
  | ReadReg int "32 word"
  | WriteReg int int nat
  | UpdateReg int int int
  | CrystalFreq int
  | Print message

record env =
  clock :: "nat \<Rightarrow> rat"
  reg_read :: "nat \<Rightarrow> int \<Rightarrow> 32 word"
  crystal_freq :: int

record world =
  ticks :: nat
  reads :: nat
  trace :: "event list"

definition time_time :: "env \<Rightarrow> world \<Rightarrow> rat \<times> world" where
  "time_time e w =
     (let t = clock e (ticks w)
      in (t, w\<lparr>ticks := Suc (ticks w), trace := trace w @ [Time t]\<rparr>))"

definition read_reg :: "env \<Rightarrow> int \<Rightarrow> world \<Rightarrow> int \<times> world" where
  "read_reg e addr w =
     (let v = reg_read e (reads w) addr
      in (uint v, w\<lparr>reads := Suc (reads w), trace := trace w @ [ReadReg addr v]\<rparr>))"





text \<open>
  The constants of \<^verbatim>\<open>EfuseDefineRegisters\<close> (\<^verbatim>\<open>mem_definition.py\<close>, not in the file)
  are parameters. An entry of \<^verbatim>\<open>BLOCK_ERRORS\<close> is
  \<open>(addr_reg, err_num_mask, err_num_offs, fail_bit)\<close>, the last three possibly \<^verbatim>\<open>None\<close>.
\<close>

record regs =
  EFUSE_STATUS_REG :: int
  EFUSE_CONF_REG :: int
  EFUSE_CMD_REG :: int
  EFUSE_PGM_DATA0_REG :: int
  EFUSE_WRITE_OP_CODE :: int
  EFUSE_READ_OP_CODE :: int
  EFUSE_PGM_CMD :: int
  EFUSE_READ_CMD :: int
  EFUSE_BURN_TIMEOUT :: rat
  EFUSE_WR_TIM_CONF2_REG :: int
  EFUSE_PWR_OFF_NUM_M :: int
  EFUSE_RD_REPEAT_ERR_REG :: int
  EFUSE_RD_RS_ERR_REG :: int
  BLOCK_ERRORS :: "(int \<times> int option \<times> nat option \<times> nat option) list"
  CODING_SCHEME_NONE :: int
  CODING_SCHEME_RS :: int

subsection \<open>EspEfuses: the programming controller\<close>

definition timeout_error :: error where
  "timeout_error = FatalError ''Timed out waiting for Efuse controller command to complete''"

text \<open>
  The loop of \<^verbatim>\<open>wait_efuse_idle\<close>. It may run forever (a clock that never reaches the
  deadline and a status that never shows idle), so not returning is the value \<open>None\<close>.
\<close>

partial_function (option) wait_loop ::
  "env \<Rightarrow> regs \<Rightarrow> pyfloat \<Rightarrow> world \<Rightarrow> ((error + unit) \<times> world) option" where
  "wait_loop e R deadline w =
     (case time_time e w of (t, w1) \<Rightarrow>
        if float_less t deadline then
          (case read_reg e (EFUSE_STATUS_REG R) w1 of (v, w2) \<Rightarrow>
             if v AND 0x7 = 1 then Some (Inr (), w2)
             else wait_loop e R deadline w2)
        else Some (Inl timeout_error, w1))"

definition wait_efuse_idle :: "env \<Rightarrow> regs \<Rightarrow> world \<Rightarrow> ((error + unit) \<times> world) option" where
  "wait_efuse_idle e R w =
     (case time_time e w of (t0, w0) \<Rightarrow>
        wait_loop e R (float_add t0 (EFUSE_BURN_TIMEOUT R)) w0)"


definition idle_status :: "32 word \<Rightarrow> bool" where
  "idle_status v = (uint v AND 0x7 = 1)"

fun polls :: "env \<Rightarrow> regs \<Rightarrow> nat \<Rightarrow> nat \<Rightarrow> nat \<Rightarrow> event list" where
  "polls e R t r 0 = []"
| "polls e R t r (Suc k) =
     Time (clock e t) # ReadReg (EFUSE_STATUS_REG R) (reg_read e r (EFUSE_STATUS_REG R)) # polls e R (Suc t) (Suc r) k"

definition busy_until :: "env \<Rightarrow> regs \<Rightarrow> pyfloat \<Rightarrow> nat \<Rightarrow> nat \<Rightarrow> nat \<Rightarrow> bool" where
  "busy_until e R d t r n =
     (\<forall>i<n. float_less (clock e (t + i)) d \<and> \<not> idle_status (reg_read e (r + i) (EFUSE_STATUS_REG R)))"

definition deadline :: "env \<Rightarrow> regs \<Rightarrow> world \<Rightarrow> pyfloat" where
  "deadline e R w = float_add (clock e (ticks w)) (EFUSE_BURN_TIMEOUT R)"

definition before_deadline :: "env \<Rightarrow> regs \<Rightarrow> world \<Rightarrow> nat \<Rightarrow> bool" where
  "before_deadline e R w n = float_less (clock e (Suc (ticks w) + n)) (deadline e R w)"

definition status_at :: "env \<Rightarrow> regs \<Rightarrow> world \<Rightarrow> nat \<Rightarrow> 32 word" where
  "status_at e R w n = reg_read e (reads w + n) (EFUSE_STATUS_REG R)"

definition busy_polls :: "env \<Rightarrow> regs \<Rightarrow> world \<Rightarrow> nat \<Rightarrow> bool" where
  "busy_polls e R w n = (\<forall>i<n. before_deadline e R w i \<and> \<not> idle_status (status_at e R w i))"

definition idle_after :: "env \<Rightarrow> regs \<Rightarrow> world \<Rightarrow> nat \<Rightarrow> world" where
  "idle_after e R w n =
     w\<lparr>ticks := ticks w + n + 2, reads := reads w + n + 1,
       trace := trace w @ Time (clock e (ticks w)) # polls e R (Suc (ticks w)) (reads w) (Suc n)\<rparr>"

definition timed_out_after :: "env \<Rightarrow> regs \<Rightarrow> world \<Rightarrow> nat \<Rightarrow> world" where
  "timed_out_after e R w n =
     w\<lparr>ticks := ticks w + n + 2, reads := reads w + n,
       trace := trace w @ Time (clock e (ticks w)) # polls e R (Suc (ticks w)) (reads w) n @
         [Time (clock e (Suc (ticks w) + n))]\<rparr>"

definition sample_regs :: regs where
  "sample_regs =
     \<lparr>EFUSE_STATUS_REG = 0x60008890, EFUSE_CONF_REG = 0x6000888C, EFUSE_CMD_REG = 0x60008894,
      EFUSE_PGM_DATA0_REG = 0x60008800, EFUSE_WRITE_OP_CODE = 0x5A5A,
      EFUSE_READ_OP_CODE = 0x5AA5, EFUSE_PGM_CMD = 0x2, EFUSE_READ_CMD = 0x1,
      EFUSE_BURN_TIMEOUT = 1 / 4, EFUSE_WR_TIM_CONF2_REG = 0x60008918,
      EFUSE_PWR_OFF_NUM_M = 0xFFFF, EFUSE_RD_REPEAT_ERR_REG = 0x60008880,
      EFUSE_RD_RS_ERR_REG = 0x60008884,
      BLOCK_ERRORS =
        [(0x60008880, None, None, None),
         (0x60008884, Some 0x7, Some 0, Some 3),
         (0x60008884, Some 0x7, Some 4, Some 7),
         (0x60008884, Some 0x7, Some 8, Some 11)],
      CODING_SCHEME_NONE = 0, CODING_SCHEME_RS = 4\<rparr>"

definition sample_env :: "rat \<Rightarrow> nat \<Rightarrow> int \<Rightarrow> env" where
  \<comment> \<open>a clock advancing by \<open>step\<close> seconds per call; every register reads 0 until the
      \<open>n\<close>-th read and 1 from then on\<close>
  "sample_env step n f =
     \<lparr>clock = (\<lambda>k. of_nat k * step), reg_read = (\<lambda>k a. if n \<le> k then 1 else 0),
      crystal_freq = f\<rparr>"

definition world0 :: world where
  "world0 = \<lparr>ticks = 0, reads = 0, trace = []\<rparr>"











subsection \<open>Blocks and the error accounting of \<^verbatim>\<open>get_coding_scheme_warnings\<close>\<close>

























subsection \<open>Typed fields: the temperature sensor and the ADC calibration point\<close>

text \<open>
  \<open>value\<close> is the bit string \<^verbatim>\<open>get_bitstring(from_read)\<close> returns (the base class is
  not in the file): the stored bits of the field, most significant first. \<^verbatim>\<open>value[0]\<close>
  raises IndexError on an empty bit string, and \<^verbatim>\<open>.uint\<close> raises InterpretError on one.
\<close>

definition bits_uint :: "bool list \<Rightarrow> int" where
  "bits_uint bs = foldl (\<lambda>acc b. 2 * acc + (if b then 1 else 0)) 0 bs"

definition uint_of :: "bool list \<Rightarrow> error + int" where
  "uint_of bs = (if bs = [] then Inl InterpretError else Inr (bits_uint bs))"

definition EfuseTempSensor_get :: "bool list \<Rightarrow> error + pyfloat" where
  "EfuseTempSensor_get value =
     (case value of
        [] \<Rightarrow> Inl IndexError
      | b # rest \<Rightarrow>
          let sig = (if b then - 1 else 1) in
          (case uint_of rest of
             Inl err \<Rightarrow> Inl err
           | Inr u \<Rightarrow>
               (case float_of_int (sig * u) of
                  Inl err \<Rightarrow> Inl err
                | Inr x \<Rightarrow> Inr (float_mul x double_0_1))))"

definition EfuseAdcPointCalibration_get :: "bool list \<Rightarrow> error + int" where
  "EfuseAdcPointCalibration_get value =
     (let STEP_SIZE = 4 in
      case value of
        [] \<Rightarrow> Inl IndexError
      | b # rest \<Rightarrow>
          let sig = (if b then - 1 else 1) in
          (case uint_of rest of
             Inl err \<Rightarrow> Inl err
           | Inr u \<Rightarrow> Inr (sig * u * STEP_SIZE)))"

subsection \<open>Typed fields: the MAC address\<close>




















subsection \<open>Theorems\<close>


lemma busy_until_Suc:
  "busy_until e R d t r (Suc n) \<longleftrightarrow>
     float_less (clock e t) d \<and> \<not> idle_status (reg_read e r (EFUSE_STATUS_REG R)) \<and>
     busy_until e R d (Suc t) (Suc r) n"
  unfolding busy_until_def
proof (intro iffI conjI allI impI)
  assume a: "\<forall>i<Suc n. float_less (clock e (t + i)) d \<and> \<not> idle_status (reg_read e (r + i) (EFUSE_STATUS_REG R))"
  from a[rule_format, of 0] show "float_less (clock e t) d" by simp
  from a[rule_format, of 0] show "\<not> idle_status (reg_read e r (EFUSE_STATUS_REG R))" by simp
  fix i assume "i < n"
  with a[rule_format, of "Suc i"] show "float_less (clock e (Suc t + i)) d" by simp
  from \<open>i < n\<close> a[rule_format, of "Suc i"] show "\<not> idle_status (reg_read e (Suc r + i) (EFUSE_STATUS_REG R))" by simp
next
  fix i
  assume b: "float_less (clock e t) d \<and> \<not> idle_status (reg_read e r (EFUSE_STATUS_REG R)) \<and>
     (\<forall>i<n. float_less (clock e (Suc t + i)) d \<and> \<not> idle_status (reg_read e (Suc r + i) (EFUSE_STATUS_REG R)))"
    and i: "i < Suc n"
  show "float_less (clock e (t + i)) d"
  proof (cases i)
    case 0 with b show ?thesis by simp
  next
    case (Suc j) with b i show ?thesis by simp
  qed
  show "\<not> idle_status (reg_read e (r + i) (EFUSE_STATUS_REG R))"
  proof (cases i)
    case 0 with b show ?thesis by simp
  next
    case (Suc j) with b i show ?thesis by simp
  qed
qed

lemma wait_loop_busy_step:
  assumes "float_less (clock e (ticks w)) d"
    and "\<not> idle_status (reg_read e (reads w) (EFUSE_STATUS_REG R))"
  shows "wait_loop e R d w =
     wait_loop e R d (w\<lparr>ticks := Suc (ticks w), reads := Suc (reads w),
        trace := trace w @ polls e R (ticks w) (reads w) 1\<rparr>)"
  using assms by (subst wait_loop.simps) (simp add: time_time_def read_reg_def idle_status_def Let_def)

lemma wait_loop_busy:
  "busy_until e R d (ticks w) (reads w) n \<Longrightarrow>
   wait_loop e R d w =
     wait_loop e R d (w\<lparr>ticks := ticks w + n, reads := reads w + n,
        trace := trace w @ polls e R (ticks w) (reads w) n\<rparr>)"
proof (induction n arbitrary: w)
  case 0
  then show ?case by simp
next
  case (Suc n)
  let ?w2 = "w\<lparr>ticks := Suc (ticks w), reads := Suc (reads w),
        trace := trace w @ polls e R (ticks w) (reads w) 1\<rparr>"
  from Suc.prems have h: "float_less (clock e (ticks w)) d"
      "\<not> idle_status (reg_read e (reads w) (EFUSE_STATUS_REG R))"
      "busy_until e R d (ticks ?w2) (reads ?w2) n"
    by (simp_all add: busy_until_Suc)
  have "wait_loop e R d w = wait_loop e R d ?w2"
    using h(1,2) by (rule wait_loop_busy_step)
  also have "\<dots> = wait_loop e R d (?w2\<lparr>ticks := ticks ?w2 + n, reads := reads ?w2 + n,
        trace := trace ?w2 @ polls e R (ticks ?w2) (reads ?w2) n\<rparr>)"
    using h(3) by (rule Suc.IH)
  finally show ?case by simp
qed

lemma wait_loop_idle_now:
  assumes "float_less (clock e (ticks w)) d"
    and "idle_status (reg_read e (reads w) (EFUSE_STATUS_REG R))"
  shows "wait_loop e R d w =
     Some (Inr (), w\<lparr>ticks := Suc (ticks w), reads := Suc (reads w),
        trace := trace w @ polls e R (ticks w) (reads w) 1\<rparr>)"
  using assms by (subst wait_loop.simps) (simp add: time_time_def read_reg_def idle_status_def Let_def)

lemma wait_loop_timeout_now:
  assumes "\<not> float_less (clock e (ticks w)) d"
  shows "wait_loop e R d w =
     Some (Inl timeout_error, w\<lparr>ticks := Suc (ticks w), trace := trace w @ [Time (clock e (ticks w))]\<rparr>)"
  using assms by (subst wait_loop.simps) (simp add: time_time_def Let_def)

lemma polls_append:
  "polls e R t r (n + m) = polls e R t r n @ polls e R (t + n) (r + n) m"
  by (induction n arbitrary: t r) simp_all

lemma wait_loop_idle:
  assumes "busy_until e R d (ticks w) (reads w) n"
    and "float_less (clock e (ticks w + n)) d"
    and "idle_status (reg_read e (reads w + n) (EFUSE_STATUS_REG R))"
  shows "wait_loop e R d w =
     Some (Inr (), w\<lparr>ticks := ticks w + Suc n, reads := reads w + Suc n,
        trace := trace w @ polls e R (ticks w) (reads w) (Suc n)\<rparr>)"
proof -
  have "polls e R (ticks w) (reads w) (Suc n) =
      polls e R (ticks w) (reads w) n @ polls e R (ticks w + n) (reads w + n) 1"
    using polls_append[of e R "ticks w" "reads w" n 1] by simp
  then show ?thesis
    using wait_loop_busy[OF assms(1)] wait_loop_idle_now[of e "w\<lparr>ticks := ticks w + n, reads := reads w + n,
        trace := trace w @ polls e R (ticks w) (reads w) n\<rparr>" d R] assms(2,3)
    by simp
qed

lemma wait_loop_timeout:
  assumes "busy_until e R d (ticks w) (reads w) n"
    and "\<not> float_less (clock e (ticks w + n)) d"
  shows "wait_loop e R d w =
     Some (Inl timeout_error, w\<lparr>ticks := ticks w + Suc n, reads := reads w + n,
        trace := trace w @ polls e R (ticks w) (reads w) n @ [Time (clock e (ticks w + n))]\<rparr>)"
  using wait_loop_busy[OF assms(1)] wait_loop_timeout_now[of e "w\<lparr>ticks := ticks w + n, reads := reads w + n,
        trace := trace w @ polls e R (ticks w) (reads w) n\<rparr>" d R] assms(2)
  by simp

lemma wait_loop_returns:
  assumes "\<not> float_less (clock e (t + n)) d"
  shows "\<exists>k\<le>n. busy_until e R d t r k \<and>
      (\<not> float_less (clock e (t + k)) d \<or>
       float_less (clock e (t + k)) d \<and> idle_status (reg_read e (r + k) (EFUSE_STATUS_REG R)))"
proof -
  define bad where "bad k \<longleftrightarrow> \<not> float_less (clock e (t + k)) d \<or> idle_status (reg_read e (r + k) (EFUSE_STATUS_REG R))" for k
  have "bad n" using assms by (simp add: bad_def)
  define k where "k = (LEAST k. bad k)"
  have bk: "bad k" unfolding k_def using \<open>bad n\<close> by (rule LeastI)
  have kn: "k \<le> n" unfolding k_def using \<open>bad n\<close> by (rule Least_le)
  have "\<not> bad i" if "i < k" for i using that not_less_Least unfolding k_def by blast
  then have "busy_until e R d t r k" by (auto simp: busy_until_def bad_def)
  with bk kn show ?thesis unfolding bad_def by blast
qed

lemma busy_polls_until:
  "busy_polls e R w n = busy_until e R (deadline e R w) (Suc (ticks w)) (reads w) n"
  by (simp add: busy_polls_def busy_until_def before_deadline_def status_at_def)

lemma wait_efuse_idle_idle:
  assumes "busy_polls e R w n" "before_deadline e R w n" "idle_status (status_at e R w n)"
  shows "wait_efuse_idle e R w = Some (Inr (), idle_after e R w n)"
proof -
  let ?w0 = "w\<lparr>ticks := Suc (ticks w), trace := trace w @ [Time (clock e (ticks w))]\<rparr>"
  have "wait_loop e R (deadline e R w) ?w0 =
     Some (Inr (), ?w0\<lparr>ticks := ticks ?w0 + Suc n, reads := reads ?w0 + Suc n,
        trace := trace ?w0 @ polls e R (ticks ?w0) (reads ?w0) (Suc n)\<rparr>)"
    using assms
    by (intro wait_loop_idle) (simp_all add: busy_polls_until before_deadline_def status_at_def)
  then show ?thesis
    by (simp add: wait_efuse_idle_def time_time_def Let_def deadline_def idle_after_def)
qed

lemma wait_efuse_idle_timeout:
  assumes "busy_polls e R w n" "\<not> before_deadline e R w n"
  shows "wait_efuse_idle e R w = Some (Inl timeout_error, timed_out_after e R w n)"
proof -
  let ?w0 = "w\<lparr>ticks := Suc (ticks w), trace := trace w @ [Time (clock e (ticks w))]\<rparr>"
  have "wait_loop e R (deadline e R w) ?w0 =
     Some (Inl timeout_error, ?w0\<lparr>ticks := ticks ?w0 + Suc n, reads := reads ?w0 + n,
        trace := trace ?w0 @ polls e R (ticks ?w0) (reads ?w0) n @ [Time (clock e (ticks ?w0 + n))]\<rparr>)"
    using assms
    by (intro wait_loop_timeout) (simp_all add: busy_polls_until before_deadline_def)
  then show ?thesis
    by (simp add: wait_efuse_idle_def time_time_def Let_def deadline_def timed_out_after_def)
qed

lemma wait_efuse_idle_returns:
  assumes "\<not> before_deadline e R w n"
  shows "\<exists>k\<le>n. wait_efuse_idle e R w = Some (Inr (), idle_after e R w k) \<or>
               wait_efuse_idle e R w = Some (Inl timeout_error, timed_out_after e R w k)"
proof -
  from assms have "\<not> float_less (clock e (Suc (ticks w) + n)) (deadline e R w)"
    by (simp add: before_deadline_def)
  from wait_loop_returns[OF this, of R "reads w"]
  obtain k where k: "k \<le> n" "busy_polls e R w k"
    "\<not> before_deadline e R w k \<or> before_deadline e R w k \<and> idle_status (status_at e R w k)"
    by (auto simp: busy_polls_until before_deadline_def status_at_def)
  from k(3) show ?thesis
  proof
    assume "\<not> before_deadline e R w k"
    with k(1,2) wait_efuse_idle_timeout show ?thesis by blast
  next
    assume "before_deadline e R w k \<and> idle_status (status_at e R w k)"
    with k(1,2) wait_efuse_idle_idle show ?thesis by blast
  qed
qed

lemma wait_loop_error':
  assumes "wait_loop e R d w = Some y"
  shows "fst y = Inr () \<or> fst y = Inl timeout_error"
proof (rule wait_loop.raw_induct[where P = "\<lambda>e R d w y. fst y = Inr () \<or> fst y = Inl timeout_error", OF _ assms])
  fix wl e R d w y
  assume IH: "\<And>e R d w y. wl e R d w = Some y \<Longrightarrow> fst y = Inr () \<or> fst y = Inl timeout_error"
    and body: "(case time_time e w of (t, w1) \<Rightarrow>
        if float_less t d then
          (case read_reg e (EFUSE_STATUS_REG R) w1 of (v, w2) \<Rightarrow>
             if v AND 0x7 = 1 then Some (Inr (), w2)
             else wl e R d w2)
        else Some (Inl timeout_error, w1)) = Some y"
  from body show "fst y = Inr () \<or> fst y = Inl timeout_error"
    by (auto simp: time_time_def read_reg_def Let_def split: if_splits dest: IH)
qed

lemma wait_loop_error:
  "wait_loop e R d w = Some (r, w') \<Longrightarrow> r = Inr () \<or> r = Inl timeout_error"
  using wait_loop_error'[of e R d w "(r, w')"] by simp

theorem wait_efuse_idle_outcomes:
  "(busy_polls e R w n \<and> before_deadline e R w n \<and> idle_status (status_at e R w n) \<longrightarrow>
      wait_efuse_idle e R w = Some (Inr (), idle_after e R w n)) \<and>
   (busy_polls e R w n \<and> \<not> before_deadline e R w n \<longrightarrow>
      wait_efuse_idle e R w = Some (Inl timeout_error, timed_out_after e R w n)) \<and>
   (\<not> before_deadline e R w n \<longrightarrow>
      (\<exists>k\<le>n. wait_efuse_idle e R w = Some (Inr (), idle_after e R w k) \<or>
               wait_efuse_idle e R w = Some (Inl timeout_error, timed_out_after e R w k))) \<and>
   (\<forall>r w'. wait_efuse_idle e R w = Some (r, w') \<longrightarrow> r = Inr () \<or> r = Inl timeout_error)"
proof (intro conjI impI allI)
  assume "busy_polls e R w n \<and> before_deadline e R w n \<and> idle_status (status_at e R w n)"
  then show "wait_efuse_idle e R w = Some (Inr (), idle_after e R w n)"
    by (simp add: wait_efuse_idle_idle)
next
  assume "busy_polls e R w n \<and> \<not> before_deadline e R w n"
  then show "wait_efuse_idle e R w = Some (Inl timeout_error, timed_out_after e R w n)"
    by (simp add: wait_efuse_idle_timeout)
next
  assume "\<not> before_deadline e R w n"
  then show "\<exists>k\<le>n. wait_efuse_idle e R w = Some (Inr (), idle_after e R w k) \<or>
               wait_efuse_idle e R w = Some (Inl timeout_error, timed_out_after e R w k)"
    by (rule wait_efuse_idle_returns)
next
  fix r w'
  assume "wait_efuse_idle e R w = Some (r, w')"
  then show "r = Inr () \<or> r = Inl timeout_error"
    by (auto simp: wait_efuse_idle_def time_time_def Let_def dest: wait_loop_error)
qed

lemma sample_deadline: "float_add 0 (1 / 4) = Float (1 / 4)"
  by code_simp

theorem wait_efuse_idle_outcomes_witness:
  "wait_efuse_idle (sample_env (1 / 16) 1 40) sample_regs world0 =
     Some (Inr (), \<lparr>ticks = 3, reads = 2,
       trace = [Time 0, Time (1 / 16), ReadReg 0x60008890 0, Time (1 / 8), ReadReg 0x60008890 1]\<rparr>) \<and>
   wait_efuse_idle (sample_env (1 / 16) 9 40) sample_regs world0 =
     Some (Inl timeout_error, \<lparr>ticks = 5, reads = 3,
       trace = [Time 0, Time (1 / 16), ReadReg 0x60008890 0, Time (1 / 8), ReadReg 0x60008890 0,
                Time (3 / 16), ReadReg 0x60008890 0, Time (1 / 4)]\<rparr>)"
  using wait_efuse_idle_outcomes[of "sample_env (1 / 16) 1 40" sample_regs world0 1]
    wait_efuse_idle_outcomes[of "sample_env (1 / 16) 9 40" sample_regs world0 3]
  by (simp add: busy_polls_def before_deadline_def status_at_def deadline_def idle_status_def
      idle_after_def timed_out_after_def sample_env_def sample_regs_def world0_def
      sample_deadline numeral_3_eq_3 All_less_Suc)


















subsection \<open>Error accounting\<close>

























subsection \<open>Typed fields\<close>

lemma bits_uint_snoc: "bits_uint (bs @ [b]) = 2 * bits_uint bs + (if b then 1 else 0)"
  by (simp add: bits_uint_def)

lemma bits_uint_bounds: "0 \<le> bits_uint bs \<and> bits_uint bs < 2 ^ length bs"
proof (induction bs rule: rev_induct)
  case Nil
  then show ?case by (simp add: bits_uint_def)
next
  case (snoc b bs)
  then show ?case by (auto simp: bits_uint_snoc)
qed

lemma pow2_pos: "0 < pow2 e"
  by (simp add: pow2_def)

lemma round_half_even_int: "round_half_even (of_int k) = k"
  by (simp add: round_half_even_def)

lemma ilog2_of_int_bounds:
  assumes "0 < n" "n < 2 ^ 53"
  shows "0 \<le> ilog2 (of_int n) \<and> ilog2 (of_int n) \<le> 52"
proof -
  have q: "quotient_of \<bar>of_int n :: rat\<bar> = (n, 1)"
    using assms(1) by (simp flip: of_int_abs)
  have b1: "bitlen 1 = 1" by code_simp
  have lo: "1 \<le> bitlen n" using assms(1) bitlen_eq_zero_iff[of n] bitlen_nonneg[of n] by simp
  have "n < 2 ^ nat 53" using assms(2) by simp
  then have hi: "bitlen n \<le> 53" by (simp add: bitlen_le_iff_power)
  let ?d = "bitlen n - 1"
  have il: "ilog2 (of_int n) = (if pow2 ?d \<le> \<bar>of_int n\<bar> then ?d else ?d - 1)"
    by (simp add: ilog2_def q b1 Let_def)
  show ?thesis
  proof (cases "pow2 ?d \<le> \<bar>of_int n :: rat\<bar>")
    case True
    with il lo hi show ?thesis by simp
  next
    case False
    have "?d \<noteq> 0"
    proof
      assume "?d = 0"
      then have "pow2 ?d = 1" by (simp add: pow2_def)
      with False assms(1) show False by simp
    qed
    with il lo hi False show ?thesis by simp
  qed
qed

lemma to_double_of_nat_exact:
  assumes "0 < n" "n < 2 ^ 53"
  shows "to_double (of_int n) = Float (of_int n)" "to_double (of_int (- n)) = Float (of_int (- n))"
proof -
  define e where "e = ilog2 (of_int n)"
  from ilog2_of_int_bounds[OF assms] have e: "0 \<le> e" "e \<le> 52" by (simp_all add: e_def)
  have e': "ilog2 (- of_int n) = e"
    by (simp add: e_def ilog2_def)
  define k where "k = nat (52 - e)"
  have u: "pow2 (max e (- 1022) - 52) = 1 / 2 ^ k"
    using e by (simp add: pow2_def k_def max_def)
  have absn: "\<bar>of_int n :: rat\<bar> = of_int n" using assms(1) by simp
  have q: "(of_int n :: rat) * 2 ^ k = of_int (n * 2 ^ k)" by simp
  have y: "of_int (round_half_even (of_int n * 2 ^ k)) / 2 ^ k = (of_int n :: rat)"
    unfolding q round_half_even_int by simp
  have "(of_int n :: rat) < 2 ^ 53" using assms(2) by (metis of_int_less_numeral_power_cancel_iff)
  also have "\<dots> < double_overflow" by (simp add: double_overflow_def)
  finally have small: "\<not> double_overflow \<le> (of_int n :: rat)" by simp
  have nz: "(of_int n :: rat) \<noteq> 0" using assms(1) by simp
  show "to_double (of_int n) = Float (of_int n)"
    using nz assms(1) small
    by (simp add: to_double_def Let_def e_def[symmetric] u absn y)
  have absm: "\<bar>of_int (- n) :: rat\<bar> = of_int n" using assms(1) by simp
  have nz': "(of_int (- n) :: rat) \<noteq> 0" using assms(1) by simp
  show "to_double (of_int (- n)) = Float (of_int (- n))"
    using nz' assms(1) small
    by (simp add: to_double_def Let_def e' u absm y)
qed

lemma float_of_int_exact:
  assumes "\<bar>n\<bar> < 2 ^ 53"
  shows "float_of_int n = Inr (of_int n)"
proof -
  consider "n = 0" | "0 < n" | "n < 0" by linarith
  then show ?thesis
  proof cases
    case 1
    then show ?thesis by (simp add: float_of_int_def to_double_def)
  next
    case 2
    with assms to_double_of_nat_exact(1)[of n] show ?thesis by (simp add: float_of_int_def)
  next
    case 3
    with assms to_double_of_nat_exact(2)[of "- n"] show ?thesis by (simp add: float_of_int_def)
  qed
qed

lemma tenths_25: "float_mul 25 double_0_1 = Float (5 / 2)" "float_mul (- 25) double_0_1 = Float (- (5 / 2))"
  by code_simp+

text \<open>
  C9: for a stored value of a sign bit and at least one more bit, the ADC calibration
  decoder returns the sign (\<open>-1\<close> when the most significant bit is set) times the
  remaining bits read as an unsigned integer times 4, and the temperature sensor decoder
  returns the double product of that signed integer and the double \<^verbatim>\<open>0.1\<close>
  (the integer converts to a double exactly up to 53 magnitude bits). With the
  remaining bits equal to 25 the results are \<open>-2.5\<close> and \<open>-100\<close> for a set top bit, and
  \<open>2.5\<close> and \<open>100\<close> for a clear one.
\<close>

theorem sign_magnitude_decoders:
  "(rest \<noteq> [] \<longrightarrow>
      EfuseAdcPointCalibration_get (b # rest) = Inr ((if b then - 1 else 1) * bits_uint rest * 4)) \<and>
   (rest \<noteq> [] \<and> length rest \<le> 53 \<longrightarrow>
      EfuseTempSensor_get (b # rest) =
        Inr (float_mul (of_int ((if b then - 1 else 1) * bits_uint rest)) double_0_1)) \<and>
   (bits_uint rest = 25 \<longrightarrow>
      EfuseTempSensor_get (True # rest) = Inr (Float (- (5 / 2))) \<and>
      EfuseAdcPointCalibration_get (True # rest) = Inr (- 100) \<and>
      EfuseTempSensor_get (False # rest) = Inr (Float (5 / 2)) \<and>
      EfuseAdcPointCalibration_get (False # rest) = Inr 100)"
proof (intro conjI impI)
  assume "rest \<noteq> []"
  then show "EfuseAdcPointCalibration_get (b # rest) = Inr ((if b then - 1 else 1) * bits_uint rest * 4)"
    by (simp add: EfuseAdcPointCalibration_get_def uint_of_def)
next
  assume a: "rest \<noteq> [] \<and> length rest \<le> 53"
  let ?n = "(if b then - 1 else 1) * bits_uint rest"
  have "bits_uint rest < 2 ^ length rest" "0 \<le> bits_uint rest"
    using bits_uint_bounds[of rest] by simp_all
  moreover have "(2 :: int) ^ length rest \<le> 2 ^ 53"
    using a by (intro power_increasing) simp_all
  ultimately have "\<bar>?n\<bar> < 2 ^ 53" by simp
  then have "float_of_int ?n = Inr (of_int ?n)" by (rule float_of_int_exact)
  with a show "EfuseTempSensor_get (b # rest) = Inr (float_mul (of_int ?n) double_0_1)"
    by (simp add: EfuseTempSensor_get_def uint_of_def Let_def)
next
  assume u: "bits_uint rest = 25"
  then have ne: "rest \<noteq> []" by (auto simp: bits_uint_def)
  have f: "float_of_int 25 = Inr 25" "float_of_int (- 25) = Inr (- 25)"
    using float_of_int_exact[of 25] float_of_int_exact[of "- 25"] by simp_all
  show "EfuseTempSensor_get (True # rest) = Inr (Float (- (5 / 2)))"
    using u ne by (simp add: EfuseTempSensor_get_def uint_of_def f tenths_25)
  show "EfuseAdcPointCalibration_get (True # rest) = Inr (- 100)"
    using u ne by (simp add: EfuseAdcPointCalibration_get_def uint_of_def)
  show "EfuseTempSensor_get (False # rest) = Inr (Float (5 / 2))"
    using u ne by (simp add: EfuseTempSensor_get_def uint_of_def f tenths_25)
  show "EfuseAdcPointCalibration_get (False # rest) = Inr 100"
    using u ne by (simp add: EfuseAdcPointCalibration_get_def uint_of_def)
qed

theorem sign_magnitude_decoders_witness:
  "bits_uint [True, True, False, False, True] = 25 \<and>
   EfuseTempSensor_get [True, True, True, False, False, True] = Inr (Float (- (5 / 2))) \<and>
   EfuseAdcPointCalibration_get [True, True, True, False, False, True] = Inr (- 100) \<and>
   EfuseTempSensor_get [False, True, True, False, False, True] = Inr (Float (5 / 2)) \<and>
   EfuseAdcPointCalibration_get [False, True, True, False, False, True] = Inr 100 \<and>
   EfuseAdcPointCalibration_get [True, False, True, True] = Inr (- 12) \<and>
   EfuseTempSensor_get [True, False, True, True] = Inr (float_mul (- 3) double_0_1)"
proof -
  have u: "bits_uint [True, True, False, False, True] = 25" "bits_uint [False, True, True] = 3"
    by (simp_all add: bits_uint_def)
  from sign_magnitude_decoders[of "[True, True, False, False, True]" True] u(1)
    sign_magnitude_decoders[of "[False, True, True]" True] u(2)
  show ?thesis by (simp add: tenths_25)
qed

subsection \<open>The MAC address\<close>













end
